theory Spec2Isabelle
  imports Main
begin

section \<open>Python strings and the Unicode database\<close>

text \<open>
  A Python \<^verbatim>\<open>str\<close> is a sequence of Unicode code points. A code point is a natural number;
  string literals of the source are written \<open>py ''...''\<close>.
\<close>

type_synonym codepoint = nat
type_synonym pystr = "codepoint list"

abbreviation cp :: "char \<Rightarrow> codepoint" where
  "cp c \<equiv> of_char c"

abbreviation py :: "string \<Rightarrow> pystr" where
  "py s \<equiv> map of_char s"

text \<open>
  \<^verbatim>\<open>str.lower\<close>, \<^verbatim>\<open>str.strip\<close> and the classes \<^verbatim>\<open>\w\<close> and \<^verbatim>\<open>\s\<close> of \<^verbatim>\<open>re\<close> consult the Unicode
  database of the interpreter. On ASCII (code points below 128) its content is fixed and written
  out below; beyond ASCII it is a parameter of the model: the lowercase mapping of a code point
  (one or more code points), alphanumeric, whitespace, and whether a capital sigma at a position
  of a string stands in final position.
\<close>

record unicode =
  ext_lower :: "codepoint \<Rightarrow> pystr"
  ext_alnum :: "codepoint \<Rightarrow> bool"
  ext_space :: "codepoint \<Rightarrow> bool"
  ext_final_sigma :: "pystr \<Rightarrow> nat \<Rightarrow> bool"

definition isspace :: "unicode \<Rightarrow> codepoint \<Rightarrow> bool" where
  "isspace U c =
     (if c < 128 then (9 \<le> c \<and> c \<le> 13) \<or> (28 \<le> c \<and> c \<le> 32) else ext_space U c)"

definition isalnum :: "unicode \<Rightarrow> codepoint \<Rightarrow> bool" where
  "isalnum U c =
     (if c < 128 then (48 \<le> c \<and> c \<le> 57) \<or> (65 \<le> c \<and> c \<le> 90) \<or> (97 \<le> c \<and> c \<le> 122)
      else ext_alnum U c)"

definition lower_full :: "unicode \<Rightarrow> codepoint \<Rightarrow> pystr" where
  "lower_full U c =
     (if c < 128 then [if 65 \<le> c \<and> c \<le> 90 then c + 32 else c] else ext_lower U c)"

text \<open>
  \<^verbatim>\<open>str.lower\<close> maps every code point to its full lowercase mapping, except the capital sigma
  U+03A3, which becomes U+03C2 in final position and U+03C3 elsewhere.
\<close>

definition lower_at :: "unicode \<Rightarrow> pystr \<Rightarrow> nat \<Rightarrow> pystr" where
  "lower_at U s i =
     (if s ! i = 0x3A3 then [if ext_final_sigma U s i then 0x3C2 else 0x3C3]
      else lower_full U (s ! i))"

definition str_lower :: "unicode \<Rightarrow> pystr \<Rightarrow> pystr" where
  "str_lower U s = concat (map (lower_at U s) [0..<length s])"

definition startswith :: "pystr \<Rightarrow> pystr \<Rightarrow> bool" where
  "startswith s prefix = (take (length prefix) s = prefix)"

text \<open>\<^verbatim>\<open>s.count(c)\<close> and \<^verbatim>\<open>s.replace(c, r)\<close> for a one-character \<^verbatim>\<open>c\<close>.\<close>

definition str_count :: "pystr \<Rightarrow> codepoint \<Rightarrow> nat" where
  "str_count s c = length (filter (\<lambda>d. d = c) s)"

definition str_replace :: "pystr \<Rightarrow> codepoint \<Rightarrow> pystr \<Rightarrow> pystr" where
  "str_replace s c r = concat (map (\<lambda>d. if d = c then r else [d]) s)"

text \<open>\<^verbatim>\<open>s.strip()\<close> removes whitespace at both ends; \<^verbatim>\<open>s.strip(chars)\<close> the characters of \<^verbatim>\<open>chars\<close>.\<close>

definition strip_where :: "(codepoint \<Rightarrow> bool) \<Rightarrow> pystr \<Rightarrow> pystr" where
  "strip_where P s = rev (dropWhile P (rev (dropWhile P s)))"

definition str_strip :: "unicode \<Rightarrow> pystr \<Rightarrow> pystr" where
  "str_strip U s = strip_where (isspace U) s"

definition str_strip_chars :: "pystr \<Rightarrow> pystr \<Rightarrow> pystr" where
  "str_strip_chars s chars = strip_where (\<lambda>c. c \<in> set chars) s"

text \<open>\<^verbatim>\<open>s * n\<close>: the empty string when \<^verbatim>\<open>n\<close> is not positive.\<close>

definition str_mul :: "pystr \<Rightarrow> int \<Rightarrow> pystr" where
  "str_mul s n = concat (replicate (nat n) s)"

subsection \<open>The two forms of \<^verbatim>\<open>re.sub\<close> in the source\<close>

text \<open>
  \<^verbatim>\<open>re.sub(pattern, repl, s)\<close> replaces the leftmost non-overlapping matches. For a pattern that
  is one character class every matching character is a match; for a class under \<^verbatim>\<open>+\<close> a match
  starts at a matching character and, being greedy, takes all matching characters after it.
\<close>

definition re_sub_class :: "(codepoint \<Rightarrow> bool) \<Rightarrow> pystr \<Rightarrow> pystr \<Rightarrow> pystr" where
  "re_sub_class P repl s = concat (map (\<lambda>c. if P c then repl else [c]) s)"

function re_sub_class_plus :: "(codepoint \<Rightarrow> bool) \<Rightarrow> pystr \<Rightarrow> pystr \<Rightarrow> pystr" where
  "re_sub_class_plus P repl [] = []"
| "re_sub_class_plus P repl (c # s) =
     (if P c then repl @ re_sub_class_plus P repl (dropWhile P s)
      else c # re_sub_class_plus P repl s)"
  by pat_completeness auto
termination
  by (relation "measure (\<lambda>(P, repl, s). length s)")
     (auto simp: length_dropWhile_le less_Suc_eq_le)

section \<open>Errors, paths and files\<close>

datatype error =
  FileNotFoundError | PermissionError | UnicodeDecodeError | UnicodeEncodeError | ValueError

text \<open>
  A \<^verbatim>\<open>Path\<close> as \<^verbatim>\<open>pathlib\<close> holds it on POSIX: the root (\<^verbatim>\<open>""\<close> for a relative path, \<^verbatim>\<open>"/"\<close>
  for an absolute one) and the list of its components.
\<close>

record path =
  path_root :: pystr
  path_tail :: "pystr list"

fun str_join :: "pystr \<Rightarrow> pystr list \<Rightarrow> pystr" where
  "str_join sep [] = []"
| "str_join sep [x] = x"
| "str_join sep (x # y # ys) = x @ sep @ str_join sep (y # ys)"

definition path_str :: "path \<Rightarrow> pystr" where
  "path_str p =
     (if path_root p = [] \<and> path_tail p = [] then py ''.''
      else path_root p @ str_join (py ''/'') (path_tail p))"

text \<open>
  \<^verbatim>\<open>p.relative_to(other)\<close>: the components of \<^verbatim>\<open>p\<close> after those of \<^verbatim>\<open>other\<close>, as a relative path;
  \<^verbatim>\<open>ValueError\<close> when \<^verbatim>\<open>p\<close> does not lie under \<^verbatim>\<open>other\<close>.
\<close>

definition relative_to :: "path \<Rightarrow> path \<Rightarrow> error + path" where
  "relative_to p other =
     (if path_root p = path_root other
         \<and> take (length (path_tail other)) (path_tail p) = path_tail other
      then Inr \<lparr>path_root = [], path_tail = drop (length (path_tail other)) (path_tail p)\<rparr>
      else Inl ValueError)"

text \<open>
  \<^verbatim>\<open>urllib.parse.quote(s)\<close>: the UTF-8 bytes of \<^verbatim>\<open>s\<close>, each kept when it is an ASCII letter, a
  digit or one of \<^verbatim>\<open>_.-~/\<close>, and written \<^verbatim>\<open>%XX\<close> otherwise. A surrogate cannot be encoded.
\<close>

definition utf8_encode :: "codepoint \<Rightarrow> error + nat list" where
  "utf8_encode c =
     (if c < 0x80 then Inr [c]
      else if c < 0x800 then Inr [0xC0 + c div 64, 0x80 + c mod 64]
      else if c < 0x10000 then
        (if 0xD800 \<le> c \<and> c \<le> 0xDFFF then Inl UnicodeEncodeError
         else Inr [0xE0 + c div 4096, 0x80 + (c div 64) mod 64, 0x80 + c mod 64])
      else if c < 0x110000 then
        Inr [0xF0 + c div 262144, 0x80 + (c div 4096) mod 64, 0x80 + (c div 64) mod 64,
             0x80 + c mod 64]
      else Inl UnicodeEncodeError)"

fun str_encode :: "pystr \<Rightarrow> error + nat list" where
  "str_encode [] = Inr []"
| "str_encode (c # s) =
     (case utf8_encode c of
        Inl e \<Rightarrow> Inl e
      | Inr bs \<Rightarrow> (case str_encode s of Inl e \<Rightarrow> Inl e | Inr rest \<Rightarrow> Inr (bs @ rest)))"

definition hex_digit :: "nat \<Rightarrow> codepoint" where
  "hex_digit d = (if d < 10 then 48 + d else 55 + d)"

definition quote_byte :: "nat \<Rightarrow> pystr" where
  "quote_byte b =
     (if (48 \<le> b \<and> b \<le> 57) \<or> (65 \<le> b \<and> b \<le> 90) \<or> (97 \<le> b \<and> b \<le> 122)
         \<or> b \<in> set (py ''_.-~/'')
      then [b]
      else [cp CHR ''%'', hex_digit (b div 16), hex_digit (b mod 16)])"

definition quote :: "pystr \<Rightarrow> error + pystr" where
  "quote s =
     (case str_encode s of Inl e \<Rightarrow> Inl e | Inr bs \<Rightarrow> Inr (concat (map quote_byte bs)))"

text \<open>
  What opening and reading a file gives: the open fails, or the rows (lines, each with its line
  end) that were read, followed by a failure to decode when there is one.
\<close>

datatype file_state = OpenFails error | Opened "pystr list" "error option"

type_synonym filesystem = "path \<Rightarrow> file_state"

section \<open>The table of contents\<close>

definition DEFAULT_TITLE :: pystr where
  "DEFAULT_TITLE = py ''Table of contents''"

definition DEFAULT_HEADER_LEVELS :: int where
  "DEFAULT_HEADER_LEVELS = 3"

definition SPACES_INDENTATION :: int where
  "SPACES_INDENTATION = 4"

record toc =
  source :: "path list"
  title :: pystr
  header_levels :: int

datatype source_arg = SourceStr pystr | SourcePaths "path list"

text \<open>The constructor; \<open>Path\<close> is \<^verbatim>\<open>pathlib\<close>'s parser of a path string.\<close>

definition TableOfContents :: "(pystr \<Rightarrow> path) \<Rightarrow> source_arg \<Rightarrow> pystr \<Rightarrow> int \<Rightarrow> toc" where
  "TableOfContents Path src ttl levels =
     \<lparr>source = (case src of SourceStr s \<Rightarrow> [Path s] | SourcePaths ps \<Rightarrow> ps),
      title = ttl, header_levels = levels\<rparr>"

definition has_multiple_sources :: "toc \<Rightarrow> bool" where
  "has_multiple_sources T = (length (source T) > 1)"

subsection \<open>\<^verbatim>\<open>find_headers\<close>\<close>

fun scan_rows :: "int \<Rightarrow> pystr list \<Rightarrow> pystr list" where
  "scan_rows levels [] = []"
| "scan_rows levels (row # rows) =
     (if startswith row (py ''#'') \<and> int (str_count row (cp CHR ''#'')) \<le> levels
      then row # scan_rows levels rows
      else scan_rows levels rows)"

text \<open>
  The generator yields the rows it recognizes and then, when the read failed, raises: the
  result holds the rows yielded and the error that ends them.
\<close>

definition find_headers :: "toc \<Rightarrow> filesystem \<Rightarrow> path \<Rightarrow> error + (pystr list \<times> error option)" where
  "find_headers T fs file =
     (case fs file of
        OpenFails e \<Rightarrow> Inl e
      | Opened rows err \<Rightarrow> Inr (scan_rows (header_levels T) rows, err))"

subsection \<open>\<^verbatim>\<open>slugify\<close>\<close>

definition slugify :: "unicode \<Rightarrow> pystr \<Rightarrow> pystr" where
  "slugify U text =
     (let text' = re_sub_class
                    (\<lambda>c. \<not> ((isalnum U c \<or> c = cp CHR ''_'') \<or> isspace U c \<or> c = cp CHR ''-''))
                    [] (str_lower U text)
      in str_strip_chars
           (re_sub_class_plus (\<lambda>c. c = cp CHR ''-'' \<or> isspace U c) (py ''-'') text')
           (py ''-_''))"

subsection \<open>\<^verbatim>\<open>get_relative_link\<close> and \<^verbatim>\<open>generate_item\<close>\<close>

definition get_relative_link :: "path \<Rightarrow> path \<Rightarrow> error + pystr" where
  "get_relative_link cwd file =
     (case relative_to file cwd of
        Inl e \<Rightarrow> Inl e
      | Inr relative_path \<Rightarrow> quote (path_str relative_path))"

definition generate_item :: "unicode \<Rightarrow> path \<Rightarrow> pystr \<Rightarrow> path option \<Rightarrow> error + pystr" where
  "generate_item U cwd header file =
     (let indentation_level = int (str_count header (cp CHR ''#'')) - 1;
          indentation = str_mul (str_mul (py '' '') SPACES_INDENTATION) indentation_level;
          header_text = str_strip U (str_replace header (cp CHR ''#'') []);
          anchor = slugify U header_text
      in case file of
           Some f \<Rightarrow>
             (case get_relative_link cwd f of
                Inl e \<Rightarrow> Inl e
              | Inr rel_link \<Rightarrow>
                  Inr (indentation @ py ''- ['' @ header_text @ py ''](./'' @ rel_link
                       @ py ''#'' @ anchor @ py '')\<newline>''))
         | None \<Rightarrow>
             Inr (indentation @ py ''- ['' @ header_text @ py ''](#'' @ anchor @ py '')\<newline>''))"

subsection \<open>\<^verbatim>\<open>generate_list\<close>\<close>

fun headers_loop :: "unicode \<Rightarrow> toc \<Rightarrow> path \<Rightarrow> path \<Rightarrow> pystr list \<Rightarrow> pystr \<Rightarrow> error + pystr" where
  "headers_loop U T cwd file [] content = Inr content"
| "headers_loop U T cwd file (header # headers) content =
     (case (if has_multiple_sources T then generate_item U cwd header (Some file)
            else generate_item U cwd header None) of
        Inl e \<Rightarrow> Inl e
      | Inr item \<Rightarrow> headers_loop U T cwd file headers (content @ item))"

fun files_loop :: "unicode \<Rightarrow> toc \<Rightarrow> filesystem \<Rightarrow> path \<Rightarrow> path list \<Rightarrow> pystr \<Rightarrow> error + pystr" where
  "files_loop U T fs cwd [] content = Inr content"
| "files_loop U T fs cwd (file # files) content =
     (case find_headers T fs file of
        Inl e \<Rightarrow> Inl e
      | Inr (headers, err) \<Rightarrow>
          (case headers_loop U T cwd file headers content of
             Inl e \<Rightarrow> Inl e
           | Inr content' \<Rightarrow>
               (case err of
                  Some e \<Rightarrow> Inl e
                | None \<Rightarrow> files_loop U T fs cwd files content')))"

definition generate_list :: "unicode \<Rightarrow> toc \<Rightarrow> filesystem \<Rightarrow> path \<Rightarrow> error + pystr" where
  "generate_list U T fs cwd =
     files_loop U T fs cwd (source T) (py ''## '' @ title T @ py ''\<newline>'')"

definition markdown :: "unicode \<Rightarrow> toc \<Rightarrow> filesystem \<Rightarrow> path \<Rightarrow> error + pystr" where
  "markdown U T fs cwd = generate_list U T fs cwd"

section \<open>The slug as the specification words it\<close>

text \<open>
  The specification describes the slug in four steps: lowercase the text; remove every character
  that is not a word character, whitespace or a hyphen; collapse every run of hyphens and
  whitespace into one hyphen; strip leading and trailing hyphens and underscores. The steps are
  written here without regular expressions, to be compared with \<open>slugify\<close>. A word character
  is an alphanumeric character or the underscore.
\<close>

definition spec_remove_invalid :: "unicode \<Rightarrow> pystr \<Rightarrow> pystr" where
  "spec_remove_invalid U s =
     filter (\<lambda>c. isalnum U c \<or> c = cp CHR ''_'' \<or> isspace U c \<or> c = cp CHR ''-'') s"

text \<open>
  Of a run of hyphens and whitespace every character that is followed by another one of the run
  is dropped, and the last one becomes a hyphen.
\<close>

fun spec_collapse_runs :: "unicode \<Rightarrow> pystr \<Rightarrow> pystr" where
  "spec_collapse_runs U [] = []"
| "spec_collapse_runs U [c] = (if c = cp CHR ''-'' \<or> isspace U c then py ''-'' else [c])"
| "spec_collapse_runs U (c # d # s) =
     (if c = cp CHR ''-'' \<or> isspace U c
      then (if d = cp CHR ''-'' \<or> isspace U d then spec_collapse_runs U (d # s)
            else cp CHR ''-'' # spec_collapse_runs U (d # s))
      else c # spec_collapse_runs U (d # s))"

definition spec_strip_ends :: "pystr \<Rightarrow> pystr" where
  "spec_strip_ends s =
     rev (dropWhile (\<lambda>c. c = cp CHR ''-'' \<or> c = cp CHR ''_'')
            (rev (dropWhile (\<lambda>c. c = cp CHR ''-'' \<or> c = cp CHR ''_'') s)))"

definition slugify_spec :: "unicode \<Rightarrow> pystr \<Rightarrow> pystr" where
  "slugify_spec U text =
     spec_strip_ends (spec_collapse_runs U (spec_remove_invalid U (str_lower U text)))"

section \<open>Stability of the lowercase mapping\<close>

text \<open>
  In the Unicode database a code point that occurs in the lowercase mapping of a code point other
  than the capital sigma, and each of the two lowercase sigmas, is not the capital sigma and is
  its own lowercase mapping: lowercasing a lowercased string changes nothing. The ASCII part of
  the model has this property by its definition; for the part beyond ASCII it is stated here.
\<close>

definition lower_stable :: "unicode \<Rightarrow> bool" where
  "lower_stable U \<longleftrightarrow>
     (\<forall>c d. (c \<noteq> 0x3A3 \<and> d \<in> set (lower_full U c)) \<or> d = 0x3C2 \<or> d = 0x3C3
            \<longrightarrow> d \<noteq> 0x3A3 \<and> lower_full U d = [d])"

text \<open>
  A string in which every hyphen or whitespace character is a hyphen that no other such
  character follows.
\<close>

fun hyphens_isolated :: "unicode \<Rightarrow> pystr \<Rightarrow> bool" where
  "hyphens_isolated U [] = True"
| "hyphens_isolated U [c] = (c = cp CHR ''-'' \<or> \<not> isspace U c)"
| "hyphens_isolated U (c # d # s) =
     ((if c = cp CHR ''-'' then \<not> (d = cp CHR ''-'' \<or> isspace U d) else \<not> isspace U c)
      \<and> hyphens_isolated U (d # s))"

section \<open>A concrete setting\<close>

text \<open>
  The Latin-1 part of the Unicode database, a working directory and a file system with two
  documents, a file that stops decoding after its first row and no other file.
\<close>

definition latin1 :: unicode where
  "latin1 =
     \<lparr>ext_lower = (\<lambda>c. if 0xC0 \<le> c \<and> c \<le> 0xDE \<and> c \<noteq> 0xD7 then [c + 32] else [c]),
      ext_alnum = (\<lambda>c. 0xC0 \<le> c \<and> c \<le> 0xFF \<and> c \<noteq> 0xD7 \<and> c \<noteq> 0xF7),
      ext_space = (\<lambda>c. c = 0x85 \<or> c = 0xA0),
      ext_final_sigma = (\<lambda>s i. False)\<rparr>"

definition ex_cwd :: path where
  "ex_cwd = \<lparr>path_root = py ''/'', path_tail = [py ''home'']\<rparr>"

definition ex_readme :: path where
  "ex_readme = \<lparr>path_root = py ''/'', path_tail = [py ''home'', py ''my docs'', py ''a.md'']\<rparr>"

definition ex_guide :: path where
  "ex_guide = \<lparr>path_root = py ''/'', path_tail = [py ''home'', py ''b.md'']\<rparr>"

definition ex_broken :: path where
  "ex_broken = \<lparr>path_root = py ''/'', path_tail = [py ''home'', py ''c.md'']\<rparr>"

definition ex_rows :: "pystr list" where
  "ex_rows =
     [py ''# A\<newline>'', py ''text # no\<newline>'', py ''#### Deep\<newline>'', py ''## B\<newline>'',
      py ''#\<newline>'', py ''## Hello  World -- _x_!\<newline>'']"

definition ex_fs :: filesystem where
  "ex_fs p =
     (if p = ex_readme then Opened ex_rows None
      else if p = ex_guide then Opened [py ''# X\<newline>''] None
      else if p = ex_broken then Opened [py ''# Z\<newline>''] (Some UnicodeDecodeError)
      else OpenFails FileNotFoundError)"

definition ex_toc :: "path list \<Rightarrow> toc" where
  "ex_toc files = \<lparr>source = files, title = DEFAULT_TITLE, header_levels = DEFAULT_HEADER_LEVELS\<rparr>"

section \<open>Recognizing headings\<close>

lemma startswith_hash: "startswith row [35] \<longleftrightarrow> row \<noteq> [] \<and> hd row = 35"
  by (cases row) (auto simp: startswith_def)

lemma str_count_count_list: "str_count s c = count_list s c"
  by (induction s) (auto simp: str_count_def)

lemma scan_rows_filter:
  "scan_rows levels rows =
     filter (\<lambda>row. row \<noteq> [] \<and> hd row = cp CHR ''#''
                   \<and> int (count_list row (cp CHR ''#'')) \<le> levels) rows"
  by (induction rows) (simp_all add: startswith_hash str_count_count_list)

text \<open>
  C1: the rows that \<^verbatim>\<open>find_headers\<close> yields for a file are exactly the rows of the file, whole and
  in their order, that start with \<^verbatim>\<open>#\<close> and hold at most \<^verbatim>\<open>header_levels\<close> characters \<^verbatim>\<open>#\<close>
  anywhere: a row is recognized if and only if both hold, and a row with more is left out, never
  cut.
\<close>

theorem find_headers_recognized:
  assumes "fs file = Opened rows err"
  shows "find_headers T fs file =
           Inr (filter (\<lambda>row. row \<noteq> [] \<and> hd row = cp CHR ''#''
                          \<and> int (count_list row (cp CHR ''#'')) \<le> header_levels T) rows, err)
         \<and> (\<forall>row. row \<in> set (fst (projr (find_headers T fs file))) \<longleftrightarrow>
               row \<in> set rows \<and> row \<noteq> [] \<and> hd row = cp CHR ''#''
                \<and> int (count_list row (cp CHR ''#'')) \<le> header_levels T)"
  using assms by (simp add: find_headers_def scan_rows_filter)

theorem find_headers_recognized_witness:
  "ex_fs ex_readme = Opened ex_rows None
   \<and> find_headers (ex_toc [ex_readme]) ex_fs ex_readme =
       Inr ([py ''# A\<newline>'', py ''## B\<newline>'', py ''#\<newline>'',
             py ''## Hello  World -- _x_!\<newline>''], None)"
  using find_headers_recognized [of ex_fs ex_readme ex_rows None "ex_toc [ex_readme]"]
  by (simp add: ex_fs_def ex_rows_def ex_toc_def DEFAULT_HEADER_LEVELS_def)

section \<open>List items\<close>

lemma concat_replicate_replicate: "concat (replicate k (replicate m x)) = replicate (k * m) x"
  by (induction k) (simp_all add: replicate_add)

lemma indentation_replicate:
  "str_mul (str_mul [c] SPACES_INDENTATION) n = replicate (nat n * 4) c"
proof -
  have "str_mul [c] SPACES_INDENTATION = replicate 4 c"
    by (simp add: str_mul_def SPACES_INDENTATION_def numeral_eq_Suc)
  then show ?thesis by (simp add: str_mul_def concat_replicate_replicate)
qed

lemma generate_item_None:
  "generate_item U cwd header None =
     Inr (replicate (nat (int (count_list header 35) - 1) * 4) 32 @ py ''- [''
          @ str_strip U (str_replace header 35 []) @ py ''](#''
          @ slugify U (str_strip U (str_replace header 35 [])) @ py '')\<newline>'')"
  by (simp add: generate_item_def Let_def indentation_replicate str_count_count_list)

lemma generate_item_Some:
  "generate_item U cwd header (Some file) =
     (case get_relative_link cwd file of Inl e \<Rightarrow> Inl e | Inr rel_link \<Rightarrow>
     Inr (replicate (nat (int (count_list header 35) - 1) * 4) 32 @ py ''- [''
          @ str_strip U (str_replace header 35 []) @ py ''](./'' @ rel_link @ py ''#''
          @ slugify U (str_strip U (str_replace header 35 [])) @ py '')\<newline>''))"
  by (simp add: generate_item_def Let_def indentation_replicate str_count_count_list)

lemma takeWhile_replicate_append:
  "ys = [] \<or> hd ys \<noteq> x \<Longrightarrow> takeWhile (\<lambda>c. c = x) (replicate n x @ ys) = replicate n x"
  by (induction n) (auto simp: takeWhile_eq_Nil_iff)

text \<open>
  C2, as amended: a recognized heading holds at least one \<^verbatim>\<open>#\<close>; its indentation level is the
  count of \<^verbatim>\<open>#\<close> in the line minus 1, and its list item starts with exactly
  \<open>4 * (count - 1)\<close> spaces, followed by \<^verbatim>\<open>- [\<close>, whether or not the link names a file.
\<close>

theorem generate_item_indentation:
  assumes "row \<in> set (scan_rows levels rows)"
      and "generate_item U cwd row file = Inr item"
  shows "1 \<le> count_list row (cp CHR ''#'')
         \<and> takeWhile (\<lambda>c. c = cp CHR '' '') item =
             replicate (4 * (count_list row (cp CHR ''#'') - 1)) (cp CHR '' '')
         \<and> (\<exists>rest. item = replicate (4 * (count_list row (cp CHR ''#'') - 1)) (cp CHR '' '')
                            @ py ''- ['' @ rest)"
proof -
  from assms(1) have "row \<noteq> [] \<and> hd row = 35" by (simp add: scan_rows_filter)
  then have c: "1 \<le> count_list row 35" by (cases row) auto
  then have n: "nat (int (count_list row 35) - 1) * 4 = 4 * (count_list row 35 - 1)"
    by (simp add: nat_diff_distrib')
  obtain rest where item: "item = replicate (4 * (count_list row 35 - 1)) 32 @ py ''- ['' @ rest"
    using assms(2) n
    by (cases "file") (auto simp: generate_item_None generate_item_Some split: sum.splits)
  have "takeWhile (\<lambda>c. c = 32) item = replicate (4 * (count_list row 35 - 1)) 32"
    unfolding item by (rule takeWhile_replicate_append) simp
  with c item show ?thesis by auto
qed


lemma str_lower_no_sigma:
  assumes "0x3A3 \<notin> set s"
  shows "str_lower U s = concat (map (lower_full U) s)"
proof -
  have "map (lower_at U s) [0..<length s] = map (\<lambda>i. lower_full U (s ! i)) [0..<length s]"
  proof (rule map_cong [OF refl])
    fix i assume "i \<in> set [0..<length s]"
    then have "s ! i \<in> set s" by simp
    with assms have "s ! i \<noteq> 0x3A3" by metis
    then show "lower_at U s i = lower_full U (s ! i)" by (simp add: lower_at_def)
  qed
  also have "\<dots> = map (lower_full U) (map (\<lambda>i. s ! i) [0..<length s])"
    by simp
  also have "\<dots> = map (lower_full U) s"
    by (simp only: map_nth)
  finally show ?thesis by (simp add: str_lower_def)
qed

lemma replicate_4: "replicate 4 x = [x, x, x, x]"
  by (simp add: numeral_eq_Suc)

lemmas slugify_eval =
  slugify_def str_lower_no_sigma lower_full_def re_sub_class_def isalnum_def isspace_def
  str_strip_chars_def str_strip_def strip_where_def str_replace_def replicate_4

theorem generate_item_indentation_witness:
  "py ''## B\<newline>'' \<in> set (scan_rows DEFAULT_HEADER_LEVELS ex_rows)
   \<and> generate_item latin1 ex_cwd (py ''## B\<newline>'') None = Inr (py ''    - [B](#b)\<newline>'')
   \<and> takeWhile (\<lambda>c. c = cp CHR '' '') (py ''    - [B](#b)\<newline>'') = replicate 4 (cp CHR '' '')"
proof -
  have 1: "py ''## B\<newline>'' \<in> set (scan_rows DEFAULT_HEADER_LEVELS ex_rows)"
    by (simp add: ex_rows_def DEFAULT_HEADER_LEVELS_def startswith_def str_count_def)
  have 2: "generate_item latin1 ex_cwd (py ''## B\<newline>'') None = Inr (py ''    - [B](#b)\<newline>'')"
    by (simp add: generate_item_None slugify_eval)
  from generate_item_indentation [OF 1 2] 1 2 show ?thesis by (simp add: replicate_4)
qed

text \<open>
  C2, as stated, takes the depth to be the count of \<^verbatim>\<open>#\<close> minus 1 and the indentation to be
  \<open>4 * (depth - 1)\<close> spaces. The recognized heading \<^verbatim>\<open>## B\<close> has depth 1 by that reading, hence
  no indentation, while its item starts with four spaces.
\<close>

theorem indentation_depth_counterexample:
  "py ''## B\<newline>'' \<in> set (scan_rows DEFAULT_HEADER_LEVELS [py ''## B\<newline>''])
   \<and> generate_item latin1 ex_cwd (py ''## B\<newline>'') None = Inr (py ''    - [B](#b)\<newline>'')
   \<and> takeWhile (\<lambda>c. c = cp CHR '' '') (py ''    - [B](#b)\<newline>'')
       \<noteq> replicate (nat (SPACES_INDENTATION
                          * ((int (count_list (py ''## B\<newline>'') (cp CHR ''#'')) - 1) - 1)))
             (cp CHR '' '')"
  by (simp add: generate_item_None slugify_eval DEFAULT_HEADER_LEVELS_def startswith_def
      str_count_def SPACES_INDENTATION_def replicate_4)

lemma strip_where_all:
  assumes "\<forall>c\<in>set s. P c"
  shows "strip_where P s = []"
proof -
  from assms have d: "dropWhile P s = []" by simp
  show ?thesis unfolding strip_where_def d by simp
qed

lemma str_replace_empty: "str_replace s c [] = filter (\<lambda>d. d \<noteq> c) s"
  by (induction s) (simp_all add: str_replace_def)

lemma slugify_empty: "slugify U [] = []"
  by (simp add: slugify_eval)

text \<open>
  C10: a heading of \<^verbatim>\<open>#\<close> characters and whitespace only has the empty display text and the
  empty anchor. Its item without a file is the indentation followed by \<^verbatim>\<open>- [](#)\<close> and a line
  end, and a table over one file that holds this recognized row alone is the title line and that
  item.
\<close>

theorem generate_item_blank_heading:
  assumes "\<forall>c\<in>set header. c = cp CHR ''#'' \<or> isspace U c"
  shows "generate_item U cwd header None =
           Inr (replicate (4 * (count_list header (cp CHR ''#'') - 1)) (cp CHR '' '')
                @ py ''- [](#)\<newline>'')
         \<and> (source T = [f] \<and> fs f = Opened [header] None \<and> header \<noteq> [] \<and> hd header = cp CHR ''#''
              \<and> int (count_list header (cp CHR ''#'')) \<le> header_levels T \<longrightarrow>
            generate_list U T fs cwd =
              Inr (py ''## '' @ title T @ py ''\<newline>''
                   @ replicate (4 * (count_list header (cp CHR ''#'') - 1)) (cp CHR '' '')
                   @ py ''- [](#)\<newline>''))"
proof -
  have "\<forall>c\<in>set (str_replace header 35 []). isspace U c"
    using assms by (auto simp: str_replace_empty)
  then have t: "str_strip U (str_replace header 35 []) = []"
    unfolding str_strip_def by (rule strip_where_all)
  have n: "nat (int (count_list header 35) - 1) * 4 = 4 * (count_list header 35 - 1)"
    by (simp add: nat_diff_distrib')
  have item: "generate_item U cwd header None =
           Inr (replicate (4 * (count_list header 35 - 1)) 32 @ py ''- [](#)\<newline>'')"
    by (simp add: generate_item_None t slugify_empty n)
  then show ?thesis
    by (simp add: generate_list_def find_headers_def has_multiple_sources_def
        startswith_hash str_count_count_list)
qed

theorem generate_item_blank_heading_witness:
  "list_all (\<lambda>c. c = cp CHR ''#'' \<or> isspace latin1 c) (py ''#\<newline>'')
   \<and> generate_item latin1 ex_cwd (py ''#\<newline>'') None = Inr (py ''- [](#)\<newline>'')
   \<and> generate_list latin1 (ex_toc [ex_guide]) (\<lambda>p. Opened [py ''#\<newline>''] None) ex_cwd
       = Inr (py ''## Table of contents\<newline>- [](#)\<newline>'')"
  using generate_item_blank_heading [of "py ''#\<newline>''" latin1 ex_cwd "ex_toc [ex_guide]" ex_guide
      "\<lambda>p. Opened [py ''#\<newline>''] None"]
  by (simp add: isspace_def ex_toc_def DEFAULT_TITLE_def DEFAULT_HEADER_LEVELS_def)

text \<open>
  C5: a table with the default title and depth over one file, whose recognized headings are
  \<^verbatim>\<open># A\<close> and \<^verbatim>\<open>## B\<close> in that order (each with or without its line end), renders as the title
  line, the item of \<^verbatim>\<open>A\<close> and the item of \<^verbatim>\<open>B\<close> indented by four spaces.
\<close>

theorem single_source_example:
  assumes "source T = [f]" and "title T = DEFAULT_TITLE"
      and "header_levels T = DEFAULT_HEADER_LEVELS"
      and "find_headers T fs f = Inr ([h1, h2], None)"
      and "h1 = py ''# A'' \<or> h1 = py ''# A\<newline>''"
      and "h2 = py ''## B'' \<or> h2 = py ''## B\<newline>''"
  shows "generate_list U T fs cwd =
           Inr (py ''## Table of contents\<newline>- [A](#a)\<newline>    - [B](#b)\<newline>'')"
proof -
  have 1: "generate_item U cwd h1 None = Inr (py ''- [A](#a)\<newline>'')"
    using assms(5) by (auto simp: generate_item_None slugify_eval)
  have 2: "generate_item U cwd h2 None = Inr (py ''    - [B](#b)\<newline>'')"
    using assms(6) by (auto simp: generate_item_None slugify_eval)
  show ?thesis
    by (simp add: generate_list_def assms(1,2,4) has_multiple_sources_def 1 2 DEFAULT_TITLE_def)
qed

theorem single_source_example_witness:
  "find_headers (ex_toc [ex_guide])
       (\<lambda>p. Opened [py ''intro\<newline>'', py ''# A\<newline>'', py ''#### Deep\<newline>'', py ''## B''] None)
       ex_guide
     = Inr ([py ''# A\<newline>'', py ''## B''], None)
   \<and> generate_list latin1 (ex_toc [ex_guide])
       (\<lambda>p. Opened [py ''intro\<newline>'', py ''# A\<newline>'', py ''#### Deep\<newline>'', py ''## B''] None)
       ex_cwd
     = Inr (py ''## Table of contents\<newline>- [A](#a)\<newline>    - [B](#b)\<newline>'')"
proof -
  have 1: "find_headers (ex_toc [ex_guide])
       (\<lambda>p. Opened [py ''intro\<newline>'', py ''# A\<newline>'', py ''#### Deep\<newline>'', py ''## B''] None)
       ex_guide
     = Inr ([py ''# A\<newline>'', py ''## B''], None)"
    by (simp add: find_headers_def ex_toc_def DEFAULT_HEADER_LEVELS_def startswith_def
        str_count_def)
  from single_source_example [OF _ _ _ 1, of latin1 ex_cwd] 1 show ?thesis
    by (simp add: ex_toc_def)
qed

section \<open>The rendered list\<close>

lemma headers_loop_Inr_iff:
  "headers_loop U T cwd f hs content = Inr out \<longleftrightarrow>
     (\<forall>h\<in>set hs. \<exists>item. generate_item U cwd h (if has_multiple_sources T then Some f else None)
                              = Inr item)
     \<and> out = content @ concat (map (\<lambda>h. projr (generate_item U cwd h
                                 (if has_multiple_sources T then Some f else None))) hs)"
  by (induction hs arbitrary: content) (auto split: sum.splits)

lemma files_loop_Inr_iff:
  "files_loop U T fs cwd files content = Inr out \<longleftrightarrow>
     (\<forall>f\<in>set files. \<exists>rows. fs f = Opened rows None)
     \<and> (\<forall>f\<in>set files. \<forall>h\<in>set (fst (projr (find_headers T fs f))).
           \<exists>item. generate_item U cwd h (if has_multiple_sources T then Some f else None) = Inr item)
     \<and> out = content @ concat (map (\<lambda>f. concat (map (\<lambda>h. projr (generate_item U cwd h
                  (if has_multiple_sources T then Some f else None)))
                (fst (projr (find_headers T fs f))))) files)"
proof (induction files arbitrary: content)
  case Nil
  then show ?case by auto
next
  case (Cons f files)
  show ?case
  proof (cases "fs f")
    case (OpenFails e)
    then show ?thesis by (auto simp: find_headers_def)
  next
    case (Opened rows err)
    then have fh: "find_headers T fs f = Inr (scan_rows (header_levels T) rows, err)"
      by (simp add: find_headers_def)
    show ?thesis
    proof (cases "headers_loop U T cwd f (scan_rows (header_levels T) rows) content")
      case (Inl e)
      then have "\<not> (\<forall>h\<in>set (scan_rows (header_levels T) rows).
         \<exists>item. generate_item U cwd h (if has_multiple_sources T then Some f else None) = Inr item)"
        using headers_loop_Inr_iff [of U T cwd f "scan_rows (header_levels T) rows" content
            "content @ concat (map (\<lambda>h. projr (generate_item U cwd h
               (if has_multiple_sources T then Some f else None)))
               (scan_rows (header_levels T) rows))"]
        by simp
      with Inl fh show ?thesis by auto
    next
      case (Inr content')
      note hl = Inr [unfolded headers_loop_Inr_iff]
      show ?thesis
      proof (cases err)
        case None
        with Inr fh Opened hl Cons.IH [of content'] show ?thesis by auto
      next
        case (Some e)
        with Inr fh Opened show ?thesis by auto
      qed
    qed
  qed
qed

lemma files_loop_unreadable:
  assumes "f \<in> set files" and "\<forall>rows. fs f \<noteq> Opened rows None"
  shows "\<exists>e. files_loop U T fs cwd files content = Inl e"
proof (cases "files_loop U T fs cwd files content")
  case (Inl e)
  then show ?thesis by blast
next
  case (Inr out)
  then have "\<forall>f\<in>set files. \<exists>rows. fs f = Opened rows None"
    unfolding files_loop_Inr_iff by blast
  with assms show ?thesis by blast
qed

lemma files_loop_append:
  "files_loop U T fs cwd (xs @ ys) content =
     (case files_loop U T fs cwd xs content of
        Inl e \<Rightarrow> Inl e | Inr content' \<Rightarrow> files_loop U T fs cwd ys content')"
  by (induction xs arbitrary: content) (auto split: sum.splits option.splits)

lemma scan_rows_no_levels: "levels < 1 \<Longrightarrow> scan_rows levels rows = []"
proof (induction rows)
  case Nil
  then show ?case by simp
next
  case (Cons row rows)
  have "startswith row [35] \<Longrightarrow> 1 \<le> int (str_count row 35)"
    by (cases row) (auto simp: startswith_def str_count_def)
  with Cons show ?case by auto
qed


lemma concat_map_pairs:
  "concat (map (\<lambda>(f, h). k f h) (concat (map (\<lambda>f. map (Pair f) (H f)) files))) =
     concat (map (\<lambda>f. concat (map (k f) (H f))) files)"
  by (induction files) (simp_all add: comp_def)

lemma generate_list_Inr_iff:
  "generate_list U T fs cwd = Inr out \<longleftrightarrow>
     (\<forall>f\<in>set (source T). \<exists>rows. fs f = Opened rows None)
     \<and> (\<forall>(f, h)\<in>set (concat (map (\<lambda>f. map (Pair f) (fst (projr (find_headers T fs f))))
                          (source T))).
           \<exists>item. generate_item U cwd h (if has_multiple_sources T then Some f else None) = Inr item)
     \<and> out = py ''## '' @ title T @ py ''\<newline>''
             @ concat (map (\<lambda>(f, h). projr (generate_item U cwd h
                              (if has_multiple_sources T then Some f else None)))
                 (concat (map (\<lambda>f. map (Pair f) (fst (projr (find_headers T fs f))))
                    (source T))))"
  unfolding generate_list_def files_loop_Inr_iff concat_map_pairs by auto

text \<open>
  C7: \<^verbatim>\<open>generate_list\<close> returns a string exactly when every source opens and reads to its end
  and every item can be generated; the string is then the title line \<^verbatim>\<open>## {title}\<close> followed by
  the items of the recognized headings, one item for each, sources in the order given and the
  headings of a source in the order of its rows.
\<close>

theorem generate_list_order:
  "generate_list U T fs cwd = Inr out \<longleftrightarrow>
     (\<forall>f\<in>set (source T). \<exists>rows. fs f = Opened rows None)
     \<and> (\<exists>items.
          map Inr items =
            map (\<lambda>(f, header). generate_item U cwd header
                                 (if has_multiple_sources T then Some f else None))
              (concat (map (\<lambda>f. map (Pair f) (fst (projr (find_headers T fs f)))) (source T)))
          \<and> out = py ''## '' @ title T @ py ''\<newline>'' @ concat items)"
proof -
  define g where "g = (\<lambda>(f, header). generate_item U cwd header
                                 (if has_multiple_sources T then Some f else None))"
  define pairs where
    "pairs = concat (map (\<lambda>f. map (Pair f) (fst (projr (find_headers T fs f)))) (source T))"
  have iff: "generate_list U T fs cwd = Inr out \<longleftrightarrow>
     (\<forall>f\<in>set (source T). \<exists>rows. fs f = Opened rows None)
     \<and> (\<forall>p\<in>set pairs. \<exists>item. g p = Inr item)
     \<and> out = py ''## '' @ title T @ py ''\<newline>'' @ concat (map (\<lambda>p. projr (g p)) pairs)"
    unfolding generate_list_Inr_iff g_def pairs_def by (auto simp: case_prod_unfold)
  have ex: "(\<forall>p\<in>set pairs. \<exists>item. g p = Inr item)
             \<and> out = py ''## '' @ title T @ py ''\<newline>'' @ concat (map (\<lambda>p. projr (g p)) pairs)
         \<longleftrightarrow> (\<exists>items. map Inr items = map g pairs
                      \<and> out = py ''## '' @ title T @ py ''\<newline>'' @ concat items)"
  proof
    assume a: "(\<forall>p\<in>set pairs. \<exists>item. g p = Inr item)
             \<and> out = py ''## '' @ title T @ py ''\<newline>'' @ concat (map (\<lambda>p. projr (g p)) pairs)"
    then have "map Inr (map (\<lambda>p. projr (g p)) pairs) = map g pairs" by auto
    with a show "\<exists>items. map Inr items = map g pairs
                      \<and> out = py ''## '' @ title T @ py ''\<newline>'' @ concat items"
      by blast
  next
    assume "\<exists>items. map Inr items = map g pairs
                      \<and> out = py ''## '' @ title T @ py ''\<newline>'' @ concat items"
    then obtain items where i: "map Inr items = map g pairs"
      and o: "out = py ''## '' @ title T @ py ''\<newline>'' @ concat items"
      by blast
    have all: "\<forall>p\<in>set pairs. \<exists>item. g p = Inr item"
    proof
      fix p assume "p \<in> set pairs"
      then have "g p \<in> set (map Inr items)" unfolding i by simp
      then show "\<exists>item. g p = Inr item" by auto
    qed
    from arg_cong [OF i, of "map projr"]
    have "items = map (\<lambda>p. projr (g p)) pairs" by (simp add: comp_def)
    with all o show "(\<forall>p\<in>set pairs. \<exists>item. g p = Inr item)
             \<and> out = py ''## '' @ title T @ py ''\<newline>'' @ concat (map (\<lambda>p. projr (g p)) pairs)"
      by simp
  qed
  show ?thesis unfolding iff g_def [symmetric] pairs_def [symmetric] using ex by blast
qed


lemma level_nat: "nat (int n - 1) * 4 = 4 * (n - 1)"
  by (simp add: nat_diff_distrib')

lemma list_all2_map_self: "\<forall>x\<in>set xs. P (k x) x \<Longrightarrow> list_all2 P (map k xs) xs"
  by (simp add: list_all2_map1 list_all2_same)

lemma get_relative_link_Inr:
  "get_relative_link cwd f = Inr rel_link \<longleftrightarrow>
     (\<exists>relative_path. relative_to f cwd = Inr relative_path
                        \<and> quote (path_str relative_path) = Inr rel_link)"
  by (auto simp: get_relative_link_def split: sum.splits)

text \<open>
  C3: whenever \<^verbatim>\<open>generate_list\<close> returns, its result is the title line followed by one item for
  each recognized heading. Over exactly one source every item links to \<^verbatim>\<open>#{anchor}\<close>. Over two or
  more sources every item links to \<^verbatim>\<open>./{rel_link}#{anchor}\<close>, where \<^verbatim>\<open>rel_link\<close> is the quoted
  (percent-encoded) path of the heading's file relative to the working directory.
\<close>

theorem link_targets:
  assumes "generate_list U T fs cwd = Inr out"
  shows "\<exists>items.
           out = py ''## '' @ title T @ py ''\<newline>'' @ concat items
           \<and> (length (source T) = 1 \<longrightarrow>
                list_all2
                  (\<lambda>item (f, header).
                     let header_text = str_strip U (str_replace header (cp CHR ''#'') []);
                         anchor = slugify U header_text
                     in item = replicate (4 * (count_list header (cp CHR ''#'') - 1)) (cp CHR '' '')
                               @ py ''- ['' @ header_text @ py ''](''
                               @ (py ''#'' @ anchor) @ py '')\<newline>'')
                  items
                  (concat (map (\<lambda>f. map (Pair f) (fst (projr (find_headers T fs f))))
                     (source T))))
           \<and> (2 \<le> length (source T) \<longrightarrow>
                list_all2
                  (\<lambda>item (f, header).
                     \<exists>relative_path rel_link.
                       relative_to f cwd = Inr relative_path
                       \<and> quote (path_str relative_path) = Inr rel_link
                       \<and> (let header_text = str_strip U (str_replace header (cp CHR ''#'') []);
                               anchor = slugify U header_text
                           in item = replicate (4 * (count_list header (cp CHR ''#'') - 1))
                                       (cp CHR '' '')
                                     @ py ''- ['' @ header_text @ py ''](''
                                     @ (py ''./'' @ rel_link @ py ''#'' @ anchor) @ py '')\<newline>''))
                  items
                  (concat (map (\<lambda>f. map (Pair f) (fst (projr (find_headers T fs f))))
                     (source T))))"
proof -
  define g where "g = (\<lambda>(f, header). projr (generate_item U cwd header
                                 (if has_multiple_sources T then Some f else None)))"
  define pairs where
    "pairs = concat (map (\<lambda>f. map (Pair f) (fst (projr (find_headers T fs f)))) (source T))"
  from assms have ok: "\<forall>(f, h)\<in>set pairs.
      \<exists>item. generate_item U cwd h (if has_multiple_sources T then Some f else None) = Inr item"
    and out: "out = py ''## '' @ title T @ py ''\<newline>'' @ concat (map g pairs)"
    unfolding generate_list_Inr_iff g_def pairs_def by blast+
  have single: "list_all2
                  (\<lambda>item (f, header).
                     let header_text = str_strip U (str_replace header (cp CHR ''#'') []);
                         anchor = slugify U header_text
                     in item = replicate (4 * (count_list header (cp CHR ''#'') - 1)) (cp CHR '' '')
                               @ py ''- ['' @ header_text @ py ''](''
                               @ (py ''#'' @ anchor) @ py '')\<newline>'')
                  (map g pairs) pairs"
    if "length (source T) = 1"
  proof (rule list_all2_map_self, rule ballI)
    fix p assume "p \<in> set pairs"
    from that have "\<not> has_multiple_sources T" by (simp add: has_multiple_sources_def)
    then show "case p of (f, header) \<Rightarrow>
                     let header_text = str_strip U (str_replace header (cp CHR ''#'') []);
                         anchor = slugify U header_text
                     in g p = replicate (4 * (count_list header (cp CHR ''#'') - 1)) (cp CHR '' '')
                               @ py ''- ['' @ header_text @ py ''](''
                               @ (py ''#'' @ anchor) @ py '')\<newline>''"
      by (cases p) (simp add: g_def generate_item_None level_nat)
  qed
  have multi: "list_all2
                  (\<lambda>item (f, header).
                     \<exists>relative_path rel_link.
                       relative_to f cwd = Inr relative_path
                       \<and> quote (path_str relative_path) = Inr rel_link
                       \<and> (let header_text = str_strip U (str_replace header (cp CHR ''#'') []);
                               anchor = slugify U header_text
                           in item = replicate (4 * (count_list header (cp CHR ''#'') - 1))
                                       (cp CHR '' '')
                                     @ py ''- ['' @ header_text @ py ''](''
                                     @ (py ''./'' @ rel_link @ py ''#'' @ anchor) @ py '')\<newline>''))
                  (map g pairs) pairs"
    if "2 \<le> length (source T)"
  proof (rule list_all2_map_self, rule ballI)
    fix p assume p: "p \<in> set pairs"
    obtain f header where fh: "p = (f, header)" by (cases p)
    from that have m: "has_multiple_sources T" by (simp add: has_multiple_sources_def)
    with ok p fh obtain item where item: "generate_item U cwd header (Some f) = Inr item"
      by auto
    then obtain rel_link where rl: "get_relative_link cwd f = Inr rel_link"
      by (auto simp: generate_item_Some split: sum.splits)
    then obtain relative_path where "relative_to f cwd = Inr relative_path"
      and "quote (path_str relative_path) = Inr rel_link"
      unfolding get_relative_link_Inr by blast
    then show "case p of (f, header) \<Rightarrow>
                     \<exists>relative_path rel_link.
                       relative_to f cwd = Inr relative_path
                       \<and> quote (path_str relative_path) = Inr rel_link
                       \<and> (let header_text = str_strip U (str_replace header (cp CHR ''#'') []);
                               anchor = slugify U header_text
                           in g p = replicate (4 * (count_list header (cp CHR ''#'') - 1))
                                       (cp CHR '' '')
                                     @ py ''- ['' @ header_text @ py ''](''
                                     @ (py ''./'' @ rel_link @ py ''#'' @ anchor) @ py '')\<newline>'')"
      using rl m by (simp add: fh g_def generate_item_Some level_nat)
  qed
  from out single multi show ?thesis unfolding pairs_def [symmetric] by blast
qed


lemmas ex_eval =
  generate_list_def find_headers_def has_multiple_sources_def ex_toc_def ex_fs_def ex_rows_def
  ex_readme_def ex_guide_def ex_broken_def ex_cwd_def DEFAULT_TITLE_def DEFAULT_HEADER_LEVELS_def
  startswith_def str_count_def generate_item_None generate_item_Some get_relative_link_def
  relative_to_def path_str_def quote_def utf8_encode_def quote_byte_def hex_digit_def
  slugify_eval

lemma ex_single_run:
  "generate_list latin1 (ex_toc [ex_readme]) ex_fs ex_cwd =
     Inr (py ''## Table of contents\<newline>- [A](#a)\<newline>    - [B](#b)\<newline>- [](#)\<newline>    - [Hello  World -- _x_!](#hello-world-_x)\<newline>'')"
  by (simp add: ex_eval)

lemma ex_multi_run:
  "generate_list latin1 (ex_toc [ex_readme, ex_guide]) ex_fs ex_cwd =
     Inr (py ''## Table of contents\<newline>- [A](./my%20docs/a.md#a)\<newline>    - [B](./my%20docs/a.md#b)\<newline>- [](./my%20docs/a.md#)\<newline>    - [Hello  World -- _x_!](./my%20docs/a.md#hello-world-_x)\<newline>- [X](./b.md#x)\<newline>'')"
  by (simp add: ex_eval)


theorem generate_list_order_witness:
  "generate_list latin1 (ex_toc [ex_readme, ex_guide]) ex_fs ex_cwd =
     Inr (py ''## Table of contents\<newline>- [A](./my%20docs/a.md#a)\<newline>    - [B](./my%20docs/a.md#b)\<newline>- [](./my%20docs/a.md#)\<newline>    - [Hello  World -- _x_!](./my%20docs/a.md#hello-world-_x)\<newline>- [X](./b.md#x)\<newline>'')
   \<and> (\<exists>items.
          map Inr items =
            map (\<lambda>(f, header). generate_item latin1 ex_cwd header
                   (if has_multiple_sources (ex_toc [ex_readme, ex_guide]) then Some f else None))
              (concat (map (\<lambda>f. map (Pair f)
                 (fst (projr (find_headers (ex_toc [ex_readme, ex_guide]) ex_fs f))))
                 (source (ex_toc [ex_readme, ex_guide]))))
          \<and> py ''## Table of contents\<newline>- [A](./my%20docs/a.md#a)\<newline>    - [B](./my%20docs/a.md#b)\<newline>- [](./my%20docs/a.md#)\<newline>    - [Hello  World -- _x_!](./my%20docs/a.md#hello-world-_x)\<newline>- [X](./b.md#x)\<newline>''
              = py ''## '' @ title (ex_toc [ex_readme, ex_guide]) @ py ''\<newline>'' @ concat items)"
  using generate_list_order [THEN iffD1, OF ex_multi_run] ex_multi_run by blast

theorem link_targets_witness:
  "generate_list latin1 (ex_toc [ex_readme]) ex_fs ex_cwd =
     Inr (py ''## Table of contents\<newline>- [A](#a)\<newline>    - [B](#b)\<newline>- [](#)\<newline>    - [Hello  World -- _x_!](#hello-world-_x)\<newline>'')
   \<and> length (source (ex_toc [ex_readme])) = 1
   \<and> generate_list latin1 (ex_toc [ex_readme, ex_guide]) ex_fs ex_cwd =
     Inr (py ''## Table of contents\<newline>- [A](./my%20docs/a.md#a)\<newline>    - [B](./my%20docs/a.md#b)\<newline>- [](./my%20docs/a.md#)\<newline>    - [Hello  World -- _x_!](./my%20docs/a.md#hello-world-_x)\<newline>- [X](./b.md#x)\<newline>'')
   \<and> 2 \<le> length (source (ex_toc [ex_readme, ex_guide]))
   \<and> (\<exists>items.
         py ''## Table of contents\<newline>- [A](./my%20docs/a.md#a)\<newline>    - [B](./my%20docs/a.md#b)\<newline>- [](./my%20docs/a.md#)\<newline>    - [Hello  World -- _x_!](./my%20docs/a.md#hello-world-_x)\<newline>- [X](./b.md#x)\<newline>''
           = py ''## '' @ title (ex_toc [ex_readme, ex_guide]) @ py ''\<newline>'' @ concat items
         \<and> list_all2
              (\<lambda>item (f, header).
                 \<exists>relative_path rel_link.
                   relative_to f ex_cwd = Inr relative_path
                   \<and> quote (path_str relative_path) = Inr rel_link
                   \<and> (let header_text = str_strip latin1 (str_replace header (cp CHR ''#'') []);
                           anchor = slugify latin1 header_text
                       in item = replicate (4 * (count_list header (cp CHR ''#'') - 1))
                                   (cp CHR '' '')
                                 @ py ''- ['' @ header_text @ py ''](''
                                 @ (py ''./'' @ rel_link @ py ''#'' @ anchor) @ py '')\<newline>''))
              items
              (concat (map (\<lambda>f. map (Pair f)
                 (fst (projr (find_headers (ex_toc [ex_readme, ex_guide]) ex_fs f))))
                 (source (ex_toc [ex_readme, ex_guide])))))"
proof -
  have 1: "length (source (ex_toc [ex_readme])) = 1"
    and 2: "2 \<le> length (source (ex_toc [ex_readme, ex_guide]))"
    by (simp_all add: ex_toc_def)
  from link_targets [OF ex_multi_run] 2 ex_single_run ex_multi_run 1 show ?thesis
    by blast
qed

lemma generate_item_ok:
  assumes "has_multiple_sources T \<longrightarrow> (\<exists>l. get_relative_link cwd f = Inr l)"
  shows "\<exists>item. generate_item U cwd h (if has_multiple_sources T then Some f else None) = Inr item"
  using assms by (auto simp: generate_item_None generate_item_Some)

text \<open>
  C8: when a source of the table cannot be opened, or stops being readable part way,
  \<^verbatim>\<open>generate_list\<close> returns an error and no string. When the sources before it are readable and
  the links of their items and of its own can be generated, the error is the one of that source.
\<close>

theorem unreadable_source_aborts:
  assumes "f \<in> set (source T)"
      and "fs f = OpenFails e \<or> fs f = Opened rows (Some e)"
  shows "(\<exists>e'. generate_list U T fs cwd = Inl e')
         \<and> (source T = pre @ f # post
              \<and> (\<forall>g\<in>set pre. \<exists>rows'. fs g = Opened rows' None)
              \<and> (has_multiple_sources T \<longrightarrow>
                   (\<forall>g\<in>set (pre @ [f]). \<exists>l. get_relative_link cwd g = Inr l))
             \<longrightarrow> generate_list U T fs cwd = Inl e)"
proof
  from assms(2) have "\<forall>rows. fs f \<noteq> Opened rows None" by auto
  with assms(1) show "\<exists>e'. generate_list U T fs cwd = Inl e'"
    unfolding generate_list_def by (rule files_loop_unreadable)
next
  show "source T = pre @ f # post
              \<and> (\<forall>g\<in>set pre. \<exists>rows'. fs g = Opened rows' None)
              \<and> (has_multiple_sources T \<longrightarrow>
                   (\<forall>g\<in>set (pre @ [f]). \<exists>l. get_relative_link cwd g = Inr l))
             \<longrightarrow> generate_list U T fs cwd = Inl e"
  proof (intro impI, elim conjE)
    assume src: "source T = pre @ f # post"
      and rd: "\<forall>g\<in>set pre. \<exists>rows'. fs g = Opened rows' None"
      and lk: "has_multiple_sources T \<longrightarrow>
                 (\<forall>g\<in>set (pre @ [f]). \<exists>l. get_relative_link cwd g = Inr l)"
    let ?c = "py ''## '' @ title T @ py ''\<newline>''"
    have items: "\<exists>item. generate_item U cwd h (if has_multiple_sources T then Some g else None)
                   = Inr item" if "g \<in> set (pre @ [f])" for g h
      using lk that by (intro generate_item_ok) blast
    have "\<exists>c'. files_loop U T fs cwd pre ?c = Inr c'"
      unfolding files_loop_Inr_iff using rd items by simp
    then obtain c' where pre: "files_loop U T fs cwd pre ?c = Inr c'" ..
    have "files_loop U T fs cwd (f # post) c' = Inl e"
    proof (cases "fs f")
      case (OpenFails e')
      with assms(2) show ?thesis by (simp add: find_headers_def)
    next
      case (Opened rows' err)
      with assms(2) have err: "err = Some e" by simp
      have "\<exists>c''. headers_loop U T cwd f (scan_rows (header_levels T) rows') c' = Inr c''"
        unfolding headers_loop_Inr_iff using items by simp
      with Opened err show ?thesis by (auto simp: find_headers_def)
    qed
    with pre show "generate_list U T fs cwd = Inl e"
      by (simp add: generate_list_def src files_loop_append)
  qed
qed

theorem unreadable_source_aborts_witness:
  "ex_broken \<in> set (source (ex_toc [ex_readme, ex_broken, ex_guide]))
   \<and> ex_fs ex_broken = Opened [py ''# Z\<newline>''] (Some UnicodeDecodeError)
   \<and> generate_list latin1 (ex_toc [ex_readme, ex_broken, ex_guide]) ex_fs ex_cwd
       = Inl UnicodeDecodeError"
proof -
  have 1: "ex_broken \<in> set (source (ex_toc [ex_readme, ex_broken, ex_guide]))"
    by (simp add: ex_toc_def)
  have 2: "ex_fs ex_broken = Opened [py ''# Z\<newline>''] (Some UnicodeDecodeError)"
    by (simp add: ex_fs_def ex_broken_def ex_readme_def ex_guide_def)
  have 3: "source (ex_toc [ex_readme, ex_broken, ex_guide]) = [ex_readme] @ ex_broken # [ex_guide]"
    by (simp add: ex_toc_def)
  have 4: "\<forall>g\<in>set [ex_readme]. \<exists>rows'. ex_fs g = Opened rows' None"
    by (simp add: ex_fs_def)
  have 5: "\<forall>g\<in>set ([ex_readme] @ [ex_broken]). \<exists>l. get_relative_link ex_cwd g = Inr l"
    by (simp add: ex_eval)
  from unreadable_source_aborts [where f = ex_broken and fs = ex_fs and e = UnicodeDecodeError
      and T = "ex_toc [ex_readme, ex_broken, ex_guide]" and rows = "[py ''# Z\<newline>'']"
      and U = latin1 and cwd = ex_cwd and pre = "[ex_readme]" and post = "[ex_guide]"]
    1 2 3 4 5
  show ?thesis by blast
qed

text \<open>
  C9: with \<^verbatim>\<open>header_levels\<close> below 1 no row of any file is recognized, and over sources that
  all open and read to their end the result is the title line alone.
\<close>

theorem no_levels_title_only:
  assumes "header_levels T < 1"
  shows "(\<forall>f rows err. fs f = Opened rows err \<longrightarrow> find_headers T fs f = Inr ([], err))
         \<and> ((\<forall>f\<in>set (source T). \<exists>rows. fs f = Opened rows None) \<longrightarrow>
              generate_list U T fs cwd = Inr (py ''## '' @ title T @ py ''\<newline>''))"
proof
  show fh: "\<forall>f rows err. fs f = Opened rows err \<longrightarrow> find_headers T fs f = Inr ([], err)"
    using assms by (simp add: find_headers_def scan_rows_no_levels)
  show "(\<forall>f\<in>set (source T). \<exists>rows. fs f = Opened rows None) \<longrightarrow>
              generate_list U T fs cwd = Inr (py ''## '' @ title T @ py ''\<newline>'')"
  proof
    assume rd: "\<forall>f\<in>set (source T). \<exists>rows. fs f = Opened rows None"
    then have "\<forall>f\<in>set (source T). fst (projr (find_headers T fs f)) = []"
      using fh by fastforce
    then have "concat (map (\<lambda>f. map (Pair f) (fst (projr (find_headers T fs f)))) (source T)) = []"
      by simp
    with rd show "generate_list U T fs cwd = Inr (py ''## '' @ title T @ py ''\<newline>'')"
      unfolding generate_list_Inr_iff by simp
  qed
qed

theorem no_levels_title_only_witness:
  "header_levels \<lparr>source = [ex_readme, ex_guide], title = DEFAULT_TITLE, header_levels = 0\<rparr> < 1
   \<and> find_headers \<lparr>source = [ex_readme, ex_guide], title = DEFAULT_TITLE, header_levels = 0\<rparr>
        ex_fs ex_readme = Inr ([], None)
   \<and> generate_list latin1
        \<lparr>source = [ex_readme, ex_guide], title = DEFAULT_TITLE, header_levels = 0\<rparr> ex_fs ex_cwd
       = Inr (py ''## Table of contents\<newline>'')"
proof -
  have 1: "header_levels \<lparr>source = [ex_readme, ex_guide], title = DEFAULT_TITLE,
                          header_levels = 0\<rparr> < 1"
    by simp
  have 2: "ex_fs ex_readme = Opened ex_rows None"
    by (simp add: ex_fs_def)
  have 3: "\<forall>f\<in>set (source \<lparr>source = [ex_readme, ex_guide], title = DEFAULT_TITLE,
                                header_levels = 0\<rparr>). \<exists>rows. ex_fs f = Opened rows None"
    by (simp add: ex_fs_def)
  from no_levels_title_only [OF 1, of ex_fs latin1 ex_cwd] 1 2 3 show ?thesis
    by (simp add: DEFAULT_TITLE_def)
qed

section \<open>The slug\<close>

lemma re_sub_class_empty: "re_sub_class P [] s = filter (\<lambda>c. \<not> P c) s"
  by (induction s) (simp_all add: re_sub_class_def)

lemma collapse_sep:
  "c = 45 \<or> isspace U c \<Longrightarrow>
     spec_collapse_runs U (c # s) =
       45 # spec_collapse_runs U (dropWhile (\<lambda>c. c = 45 \<or> isspace U c) s)"
  by (induction s arbitrary: c) auto

lemma collapse_nonsep:
  "\<not> (c = 45 \<or> isspace U c) \<Longrightarrow> spec_collapse_runs U (c # s) = c # spec_collapse_runs U s"
  by (cases s) auto

lemma re_sub_class_plus_collapse:
  "re_sub_class_plus (\<lambda>c. c = 45 \<or> isspace U c) [45] s = spec_collapse_runs U s"
proof (induction "\<lambda>c. c = 45 \<or> isspace U c" "[45::nat]" s rule: re_sub_class_plus.induct)
  case 1
  then show ?case by simp
next
  case (2 c s)
  show ?case
  proof (cases "c = 45 \<or> isspace U c")
    case True
    with 2 show ?thesis by (simp add: collapse_sep del: spec_collapse_runs.simps)
  next
    case False
    with 2 show ?thesis by (simp add: collapse_nonsep del: spec_collapse_runs.simps)
  qed
qed

lemma slugify_slugify_spec: "slugify U text = slugify_spec U text"
proof -
  have strip: "str_strip_chars s (py ''-_'') = spec_strip_ends s" for s
  proof -
    have "(\<lambda>c. c \<in> set (py ''-_'')) = (\<lambda>c. c = 45 \<or> c = 95)" by auto
    then show ?thesis by (simp add: str_strip_chars_def strip_where_def spec_strip_ends_def)
  qed
  have remove: "re_sub_class (\<lambda>c. \<not> ((isalnum U c \<or> c = 95) \<or> isspace U c \<or> c = 45)) [] s
                  = spec_remove_invalid U s" for s
    by (simp add: re_sub_class_empty spec_remove_invalid_def disj_ac)
  show ?thesis
    unfolding slugify_def slugify_spec_def Let_def strip
    using remove re_sub_class_plus_collapse by simp
qed


lemma isolated_tl: "hyphens_isolated U (c # s) \<Longrightarrow> hyphens_isolated U s"
  by (cases s) auto

lemma isolated_nonsep:
  "\<not> (c = 45 \<or> isspace U c) \<Longrightarrow> hyphens_isolated U (c # s) = hyphens_isolated U s"
  by (cases s) auto

lemma isolated_collapse: "hyphens_isolated U (spec_collapse_runs U s)"
proof (induction U s rule: spec_collapse_runs.induct)
  case (1 U)
  then show ?case by simp
next
  case (2 U c)
  then show ?case by (simp add: isspace_def)
next
  case (3 U c d s)
  show ?case
  proof (cases "c = 45 \<or> isspace U c")
    case sep_c: True
    show ?thesis
    proof (cases "d = 45 \<or> isspace U d")
      case True
      with sep_c 3 show ?thesis by simp
    next
      case False
      then have "spec_collapse_runs U (d # s) = d # spec_collapse_runs U s"
        by (rule collapse_nonsep)
      with sep_c False 3 show ?thesis by auto
    qed
  next
    case False
    with 3 show ?thesis by (simp add: isolated_nonsep del: hyphens_isolated.simps)
  qed
qed

lemma collapse_isolated: "hyphens_isolated U s \<Longrightarrow> spec_collapse_runs U s = s"
  by (induction U s rule: spec_collapse_runs.induct) (auto split: if_splits)

lemma isolated_append_right: "hyphens_isolated U (a @ b) \<Longrightarrow> hyphens_isolated U b"
  by (induction a) (auto dest: isolated_tl)

lemma isolated_append_left: "hyphens_isolated U (a @ b) \<Longrightarrow> hyphens_isolated U a"
proof (induction U a rule: hyphens_isolated.induct)
  case (1 U)
  then show ?case by simp
next
  case (2 U c)
  then show ?case by (cases b) (auto split: if_splits)
next
  case (3 U c d s)
  then show ?case by auto
qed

lemma strip_where_decomp: "\<exists>a b. s = a @ strip_where P s @ b"
proof -
  have 1: "s = takeWhile P s @ dropWhile P s" by simp
  have "strip_where P s @ rev (takeWhile P (rev (dropWhile P s))) =
          rev (takeWhile P (rev (dropWhile P s)) @ dropWhile P (rev (dropWhile P s)))"
    by (simp only: strip_where_def rev_append)
  also have "\<dots> = dropWhile P s"
    by (simp only: takeWhile_dropWhile_id rev_rev_ident)
  finally have 2: "dropWhile P s = strip_where P s @ rev (takeWhile P (rev (dropWhile P s)))"
    by (rule sym)
  from 1 2 have "s = takeWhile P s @ strip_where P s @ rev (takeWhile P (rev (dropWhile P s)))"
    by simp
  then show ?thesis by blast
qed

lemma isolated_strip: "hyphens_isolated U s \<Longrightarrow> hyphens_isolated U (strip_where P s)"
proof -
  assume h: "hyphens_isolated U s"
  obtain a b where "s = a @ strip_where P s @ b" using strip_where_decomp by blast
  with h have "hyphens_isolated U (a @ strip_where P s @ b)" by simp
  then show ?thesis using isolated_append_left isolated_append_right by blast
qed

lemma set_strip_where: "set (strip_where P s) \<subseteq> set s"
proof -
  obtain a b where "s = a @ strip_where P s @ b" using strip_where_decomp by blast
  then have "set s = set a \<union> set (strip_where P s) \<union> set b"
    by (metis set_append sup_assoc)
  then show ?thesis by blast
qed

lemma strip_where_idem: "strip_where P (strip_where P s) = strip_where P s"
proof -
  define u where "u = dropWhile P s"
  define v where "v = dropWhile P (rev u)"
  have v: "dropWhile P v = v"
    unfolding v_def by (simp add: dropWhile_eq_self_iff hd_dropWhile)
  have "dropWhile P (rev v) = rev v"
  proof (cases "v = []")
    case True
    then show ?thesis by simp
  next
    case False
    then have u: "u \<noteq> []" unfolding v_def by auto
    have "rev u = takeWhile P (rev u) @ v" unfolding v_def by simp
    then have "last (rev u) = last (takeWhile P (rev u) @ v)" by (rule arg_cong)
    with False have "last (rev u) = last v" by simp
    with u have "last v = hd u" by (simp add: last_rev)
    moreover have "\<not> P (hd u)" using u unfolding u_def by (rule hd_dropWhile)
    ultimately have "\<not> P (hd (rev v))" using False by (simp add: hd_rev)
    then show ?thesis by (simp add: dropWhile_eq_self_iff)
  qed
  with v show ?thesis by (simp add: strip_where_def u_def [symmetric] v_def [symmetric])
qed

lemma set_collapse:
  "set (spec_collapse_runs U s) \<subseteq> insert 45 {c \<in> set s. \<not> isspace U c}"
  by (induction U s rule: spec_collapse_runs.induct) auto

lemma set_str_lower:
  assumes "d \<in> set (str_lower U s)"
  shows "d = 0x3C2 \<or> d = 0x3C3 \<or> (\<exists>c. c \<noteq> 0x3A3 \<and> d \<in> set (lower_full U c))"
proof -
  from assms obtain i where "d \<in> set (lower_at U s i)"
    by (auto simp: str_lower_def)
  then show ?thesis by (auto simp: lower_at_def split: if_splits)
qed

lemma str_lower_fixed:
  assumes "\<forall>c\<in>set s. c \<noteq> 0x3A3 \<and> lower_full U c = [c]"
  shows "str_lower U s = s"
proof -
  from assms have "0x3A3 \<notin> set s" by blast
  then have "str_lower U s = concat (map (lower_full U) s)" by (rule str_lower_no_sigma)
  also have "map (lower_full U) s = map (\<lambda>c. [c]) s" using assms by simp
  also have "concat (map (\<lambda>c. [c]) s) = s" by (induction s) simp_all
  finally show ?thesis .
qed


text \<open>
  C4: for every text, \<open>slugify\<close> computes what the four steps of the specification compute:
  the lowercased text, without the characters that are neither word characters, whitespace nor
  hyphens, with every run of hyphens and whitespace collapsed into one hyphen, stripped of
  leading and trailing hyphens and underscores. It is a function of the text (and of the Unicode
  database) alone, and \<^verbatim>\<open>Hello World\<close> and \<^verbatim>\<open>hello world\<close> both give \<^verbatim>\<open>hello-world\<close>.
\<close>

theorem slugify_steps:
  "slugify U text = slugify_spec U text
   \<and> slugify U (py ''Hello World'') = py ''hello-world''
   \<and> slugify U (py ''hello world'') = py ''hello-world''"
proof (intro conjI)
  show "slugify U text = slugify_spec U text"
    by (rule slugify_slugify_spec)
  show "slugify U (py ''Hello World'') = py ''hello-world''"
    by (simp add: slugify_eval)
  show "slugify U (py ''hello world'') = py ''hello-world''"
    by (simp add: slugify_eval)
qed

theorem slugify_steps_witness:
  "slugify latin1 ([0xC9] @ py ''cole  -- Normale_!'') = [0xE9] @ py ''cole-normale''
   \<and> slugify_spec latin1 ([0xC9] @ py ''cole  -- Normale_!'') = [0xE9] @ py ''cole-normale''"
proof -
  have "slugify latin1 ([0xC9] @ py ''cole  -- Normale_!'') = [0xE9] @ py ''cole-normale''"
    by (simp add: slugify_eval latin1_def)
  with slugify_steps [of latin1 "[0xC9] @ py ''cole  -- Normale_!''"] show ?thesis by simp
qed

lemma lower_stable_latin1: "lower_stable latin1"
  unfolding lower_stable_def lower_full_def latin1_def
  by (auto split: if_splits)

text \<open>
  C6: \<open>slugify\<close> is idempotent. A slug holds hyphens, none next to another and none at an end,
  and word characters of the lowercased text that are not whitespace; over a Unicode database
  whose lowercase mapping is stable, lowercasing, removing, collapsing and stripping each leave
  it as it is.
\<close>

theorem slugify_idempotent:
  assumes "lower_stable U"
  shows "slugify U (slugify U x) = slugify U x"
proof -
  define Q where "Q = (\<lambda>c::nat. c = 45 \<or> c = 95)"
  define l where "l = spec_remove_invalid U (str_lower U x)"
  define y where "y = strip_where Q (spec_collapse_runs U l)"
  have slug: "slugify U t = strip_where Q (spec_collapse_runs U (spec_remove_invalid U (str_lower U t)))"
    for t
    by (simp add: slugify_slugify_spec slugify_spec_def spec_strip_ends_def strip_where_def Q_def)
  have y: "slugify U x = y" by (simp add: slug y_def l_def)
  have iso: "hyphens_isolated U y"
    unfolding y_def by (intro isolated_strip isolated_collapse)
  have chars: "c = 45 \<or> (c \<in> set (str_lower U x) \<and> (isalnum U c \<or> c = 95) \<and> \<not> isspace U c)"
    if "c \<in> set y" for c
  proof -
    from that have "c \<in> set (spec_collapse_runs U l)"
      unfolding y_def using set_strip_where by blast
    then have "c = 45 \<or> (c \<in> set l \<and> \<not> isspace U c)"
      using set_collapse by blast
    then show ?thesis by (auto simp: l_def spec_remove_invalid_def)
  qed
  have stable: "c \<noteq> 0x3A3 \<and> lower_full U c = [c]" if "c \<in> set y" for c
  proof -
    from chars [OF that] show ?thesis
    proof
      assume "c = 45"
      then show ?thesis by (simp add: lower_full_def)
    next
      assume "c \<in> set (str_lower U x) \<and> (isalnum U c \<or> c = 95) \<and> \<not> isspace U c"
      then have "c = 0x3C2 \<or> c = 0x3C3 \<or> (\<exists>d. d \<noteq> 0x3A3 \<and> c \<in> set (lower_full U d))"
        using set_str_lower by blast
      with assms show ?thesis unfolding lower_stable_def by blast
    qed
  qed
  have 1: "str_lower U y = y"
    by (rule str_lower_fixed) (use stable in blast)
  have 2: "spec_remove_invalid U y = y"
    unfolding spec_remove_invalid_def using chars by (auto simp: filter_id_conv)
  have 3: "spec_collapse_runs U y = y"
    using iso by (rule collapse_isolated)
  have 4: "strip_where Q y = y"
    unfolding y_def by (rule strip_where_idem)
  show ?thesis unfolding y by (simp add: slug 1 2 3 4)
qed

theorem slugify_idempotent_witness:
  "lower_stable latin1
   \<and> slugify latin1 ([0xC9] @ py ''cole  -- Normale_!'') = [0xE9] @ py ''cole-normale''
   \<and> slugify latin1 (slugify latin1 ([0xC9] @ py ''cole  -- Normale_!''))
       = [0xE9] @ py ''cole-normale''"
proof -
  have "slugify latin1 ([0xC9] @ py ''cole  -- Normale_!'') = [0xE9] @ py ''cole-normale''"
    by (simp add: slugify_eval latin1_def)
  with slugify_idempotent [OF lower_stable_latin1, of "[0xC9] @ py ''cole  -- Normale_!''"]
    lower_stable_latin1
  show ?thesis by simp
qed

end
